theory Spec2Isabelle
  imports Main "HOL-Library.AList"
begin

section \<open>The board of the triangular peg game (triangles/models.py)\<close>

text \<open>
  Positions are Python integers.  The pins of a board are a Python dictionary from
  position to status; a dictionary keeps its keys in insertion order, so it is an
  association list here: a lookup of a missing key raises KeyError, an assignment to a
  present key replaces the status where the key stands, and an assignment to a missing
  key appends.  Exceptions are values of type \<open>error\<close>; a method that only reads
  returns \<open>error + 'a\<close>, and a method that mutates the board returns its outcome together
  with the board as the call leaves it, also when the call raises.
\<close>

datatype error = ValueError string | KeyError int | IndexError

type_synonym move = "int \<times> int \<times> int"

datatype board =
  Board (pins: "(int \<times> bool) list") (previous_board: "board option") (empty_position: int)

definition validate_position :: "int \<Rightarrow> string option \<Rightarrow> error + unit" where
  "validate_position position name =
     (if \<not> (0 \<le> position \<and> position \<le> 14) then
        Inl (ValueError
          (case name of
             None \<Rightarrow> ''position out of range (must be 0 through 14)''
           | Some n \<Rightarrow>
               if n \<noteq> [] then n @ '' out of range (must be 0 through 14)''
               else ''position out of range (must be 0 through 14)''))
      else Inr ())"

text \<open>\<open>Board.__init__\<close>: the dictionary is filled for the positions of \<open>range(15)\<close>.\<close>

definition init_pins :: "int \<Rightarrow> (int \<times> bool) list" where
  "init_pins empty_pos =
     fold (\<lambda>position ps. AList.update position (position \<noteq> empty_pos) ps) [0..14] []"

definition init :: "int \<Rightarrow> board option \<Rightarrow> error + board" where
  "init empty_pos prev =
     (case validate_position empty_pos (Some ''empty_position'') of
        Inl e \<Rightarrow> Inl e
      | Inr _ \<Rightarrow> Inr (Board (init_pins empty_pos) prev empty_pos))"

definition pin_status :: "board \<Rightarrow> int \<Rightarrow> error + bool" where
  "pin_status self position =
     (case validate_position position None of
        Inl e \<Rightarrow> Inl e
      | Inr _ \<Rightarrow>
          (case map_of (pins self) position of
             None \<Rightarrow> Inl (KeyError position)
           | Some status \<Rightarrow> Inr status))"

definition set_pin_status :: "int \<Rightarrow> bool \<Rightarrow> board \<Rightarrow> (error + unit) \<times> board" where
  "set_pin_status position status self =
     (case validate_position position None of
        Inl e \<Rightarrow> (Inl e, self)
      | Inr _ \<Rightarrow>
          (Inr (),
           Board (AList.update position status (pins self))
             (previous_board self) (empty_position self)))"

text \<open>\<open>Board.__eq__\<close>: one comparison for every item of the other board's dictionary.\<close>

fun comparisons :: "board \<Rightarrow> (int \<times> bool) list \<Rightarrow> error + bool list" where
  "comparisons self [] = Inr []"
| "comparisons self ((pos, status) # items) =
     (case pin_status self pos of
        Inl e \<Rightarrow> Inl e
      | Inr s \<Rightarrow>
          (case comparisons self items of
             Inl e \<Rightarrow> Inl e
           | Inr cs \<Rightarrow> Inr ((s = status) # cs)))"

definition board_eq :: "board \<Rightarrow> board \<Rightarrow> error + bool" where
  "board_eq self other =
     (case comparisons self (pins other) of
        Inl e \<Rightarrow> Inl e
      | Inr cs \<Rightarrow> Inr (\<not> (False \<in> set cs)))"

text \<open>\<open>Board.__str__\<close>.\<close>

definition str :: "board \<Rightarrow> string" where
  "str self = map (\<lambda>(p, s). if s then CHR ''1'' else CHR ''0'') (pins self)"

text \<open>\<open>Board.copy\<close>: a fresh board whose predecessor is the copied board, then every
  status of the copied board is set on it.\<close>

fun copy_items :: "(int \<times> bool) list \<Rightarrow> board \<Rightarrow> error + board" where
  "copy_items [] board = Inr board"
| "copy_items ((position, status) # items) board =
     (case set_pin_status position status board of
        (Inl e, _) \<Rightarrow> Inl e
      | (Inr _, board') \<Rightarrow> copy_items items board')"

definition copy :: "board \<Rightarrow> error + board" where
  "copy self =
     (case init (empty_position self) (Some self) of
        Inl e \<Rightarrow> Inl e
      | Inr board \<Rightarrow> copy_items (pins self) board)"

text \<open>\<open>Board.is_won\<close> and \<open>Board.occupied_positions\<close>.\<close>

definition is_won :: "board \<Rightarrow> bool" where
  "is_won self = (length (filter (\<lambda>v. v = True) (map snd (pins self))) = 1)"

definition occupied_positions :: "board \<Rightarrow> int list" where
  "occupied_positions self = map fst (filter (\<lambda>(position, status). status = True) (pins self))"

text \<open>\<open>Board.valid_moves_for_position\<close>: the static rule table, moves as
  (starting position, ending position, jumped position).\<close>

definition valid_moves_for_position :: "int \<Rightarrow> error + move list" where
  "valid_moves_for_position position =
     (case validate_position position None of
        Inl e \<Rightarrow> Inl e
      | Inr _ \<Rightarrow> Inr
         (if position = 0 then [(0, 2, 1), (0, 9, 5)]
          else if position = 1 then [(1, 3, 2), (1, 10, 6)]
          else if position = 2 then [(2, 0, 1), (2, 9, 6), (2, 11, 7), (2, 4, 3)]
          else if position = 3 then [(3, 1, 2), (3, 10, 7)]
          else if position = 4 then [(4, 2, 3), (4, 11, 8)]
          else if position = 5 then [(5, 7, 6), (5, 12, 9)]
          else if position = 6 then [(6, 8, 7), (6, 13, 10)]
          else if position = 7 then [(7, 5, 6), (7, 12, 10)]
          else if position = 8 then [(8, 6, 7), (8, 13, 11)]
          else if position = 9 then [(9, 0, 5), (9, 2, 6), (9, 11, 10), (9, 14, 12)]
          else if position = 10 then [(10, 1, 6), (10, 3, 7)]
          else if position = 11 then [(11, 4, 8), (11, 2, 7), (11, 9, 10), (11, 14, 13)]
          else if position = 12 then [(12, 5, 9), (12, 7, 10)]
          else if position = 13 then [(13, 6, 10), (13, 8, 11)]
          else [(14, 9, 12), (14, 11, 13)]))"

text \<open>\<open>Board.moves_for_position\<close>: the rule table of an occupied position, without the
  moves whose ending position is occupied or whose jumped position is empty.\<close>

fun filter_moves :: "board \<Rightarrow> move list \<Rightarrow> error + move list" where
  "filter_moves self [] = Inr []"
| "filter_moves self ((start, end, jump) # rest) =
     (case pin_status self end of
        Inl e \<Rightarrow> Inl e
      | Inr end_status \<Rightarrow>
          if end_status then filter_moves self rest
          else
            (case pin_status self jump of
               Inl e \<Rightarrow> Inl e
             | Inr jump_status \<Rightarrow>
                 if \<not> jump_status then filter_moves self rest
                 else
                   (case filter_moves self rest of
                      Inl e \<Rightarrow> Inl e
                    | Inr ms \<Rightarrow> Inr ((start, end, jump) # ms))))"

definition moves_for_position :: "board \<Rightarrow> int \<Rightarrow> error + move list" where
  "moves_for_position self position =
     (case validate_position position None of
        Inl e \<Rightarrow> Inl e
      | Inr _ \<Rightarrow>
          (case map_of (pins self) position of
             None \<Rightarrow> Inl (KeyError position)
           | Some status \<Rightarrow>
               if \<not> status then Inr []
               else
                 (case valid_moves_for_position position of
                    Inl e \<Rightarrow> Inl e
                  | Inr table \<Rightarrow> filter_moves self table)))"

text \<open>\<open>Board.moves\<close>: the moves of every occupied position, in the order of the positions.\<close>

fun moves_loop :: "board \<Rightarrow> int list \<Rightarrow> move list \<Rightarrow> error + move list" where
  "moves_loop self [] acc = Inr acc"
| "moves_loop self (position # rest) acc =
     (case moves_for_position self position of
        Inl e \<Rightarrow> Inl e
      | Inr ms \<Rightarrow> moves_loop self rest (acc @ ms))"

definition moves :: "board \<Rightarrow> error + move list" where
  "moves self = moves_loop self (occupied_positions self) []"

text \<open>\<open>Board.move\<close>: three range checks, three occupancy checks, then three
  assignments.\<close>

definition move :: "int \<Rightarrow> int \<Rightarrow> int \<Rightarrow> board \<Rightarrow> (error + unit) \<times> board" where
  "move start end jump self =
     (case validate_position start (Some ''start'') of
        Inl e \<Rightarrow> (Inl e, self)
      | Inr _ \<Rightarrow>
     (case validate_position end (Some ''end'') of
        Inl e \<Rightarrow> (Inl e, self)
      | Inr _ \<Rightarrow>
     (case validate_position jump (Some ''jump'') of
        Inl e \<Rightarrow> (Inl e, self)
      | Inr _ \<Rightarrow>
     (case pin_status self start of
        Inl e \<Rightarrow> (Inl e, self)
      | Inr start_status \<Rightarrow>
          if \<not> start_status then (Inl (ValueError ''start is empty''), self)
          else
     (case pin_status self end of
        Inl e \<Rightarrow> (Inl e, self)
      | Inr end_status \<Rightarrow>
          if end_status then (Inl (ValueError ''end is occupied''), self)
          else
     (case pin_status self jump of
        Inl e \<Rightarrow> (Inl e, self)
      | Inr jump_status \<Rightarrow>
          if \<not> jump_status then (Inl (ValueError ''jump is empty''), self)
          else
     (case set_pin_status start False self of
        (Inl e, self1) \<Rightarrow> (Inl e, self1)
      | (Inr _, self1) \<Rightarrow>
     (case set_pin_status jump False self1 of
        (Inl e, self2) \<Rightarrow> (Inl e, self2)
      | (Inr _, self2) \<Rightarrow> set_pin_status end True self2))))))))"

text \<open>\<open>Board.transform\<close>: the statuses are read from a copy of the dictionary taken
  before the first assignment.\<close>

fun transform_loop ::
  "(int \<times> bool) list \<Rightarrow> (int \<times> int) list \<Rightarrow> board \<Rightarrow> (error + unit) \<times> board" where
  "transform_loop prev_pins [] self = (Inr (), self)"
| "transform_loop prev_pins ((prev_pos, new_pos) # rest) self =
     (case validate_position prev_pos (Some ''prev_pos'') of
        Inl e \<Rightarrow> (Inl e, self)
      | Inr _ \<Rightarrow>
     (case validate_position new_pos (Some ''new_pos'') of
        Inl e \<Rightarrow> (Inl e, self)
      | Inr _ \<Rightarrow>
     (case map_of prev_pins prev_pos of
        None \<Rightarrow> (Inl (KeyError prev_pos), self)
      | Some status \<Rightarrow>
     (case set_pin_status new_pos status self of
        (Inl e, self') \<Rightarrow> (Inl e, self')
      | (Inr _, self') \<Rightarrow> transform_loop prev_pins rest self'))))"

definition transform :: "(int \<times> int) list \<Rightarrow> board \<Rightarrow> (error + unit) \<times> board" where
  "transform position_substitutions self =
     transform_loop (pins self) position_substitutions self"

definition reflection :: "(int \<times> int) list" where
  "reflection =
     [(0,4), (1,3), (2,2), (3,1), (4,0),
      (5,8), (6,7), (7,6), (8,5),
      (9,11), (10,10), (11,9),
      (12,13), (13,12),
      (14,14)]"

definition clockwise_rotation :: "(int \<times> int) list" where
  "clockwise_rotation =
     [(0,14), (1,12), (2,9), (3,5), (4,0),
      (5,13), (6,10), (7,6), (8,1),
      (9,11), (10,7), (11,2),
      (12,8), (13,3),
      (14,4)]"

definition counter_clockwise_rotation :: "(int \<times> int) list" where
  "counter_clockwise_rotation =
     [(0,4), (1,8), (2,11), (3,13), (4,14),
      (5,3), (6,7), (7,10), (8,12),
      (9,2), (10,6), (11,9),
      (12,1), (13,5),
      (14,0)]"

definition clockwise_rotation_and_reflection :: "(int \<times> int) list" where
  "clockwise_rotation_and_reflection =
     [(0,0), (1,5), (2,9), (3,12), (4,14),
      (5,1), (6,6), (7,10), (8,13),
      (9,2), (10,7), (11,11),
      (12,3), (13,8),
      (14,4)]"

definition counter_clockwise_rotation_and_reflection :: "(int \<times> int) list" where
  "counter_clockwise_rotation_and_reflection =
     [(0,14), (1,13), (2,11), (3,8), (4,4),
      (5,12), (6,10), (7,7), (8,3),
      (9,9), (10,6), (11,2),
      (12,5), (13,1),
      (14,0)]"

text \<open>\<open>Board.valid_transformations\<close>.\<close>

definition valid_transformations :: "(string \<times> (int \<times> int) list) list" where
  "valid_transformations =
     [(''Reflection'', reflection),
      (''Clockwise rotation'', clockwise_rotation),
      (''Counter-clockwise rotation'', counter_clockwise_rotation),
      (''Clockwise rotation and reflection'', clockwise_rotation_and_reflection),
      (''Counter-clockwise rotation and reflection'',
         counter_clockwise_rotation_and_reflection)]"

subsection \<open>The configuration id of a board\<close>

text \<open>The format \<open>{:015b}\<close> of an integer: its binary digits, padded with zeros on the
  left to fifteen characters, a minus sign counting as one of them.\<close>

definition bit_char :: "nat \<Rightarrow> char" where
  "bit_char d = (if d = 1 then CHR ''1'' else CHR ''0'')"

fun bin :: "nat \<Rightarrow> string" where
  "bin n = (if n < 2 then [bit_char n] else bin (n div 2) @ [bit_char (n mod 2)])"

declare bin.simps [simp del]

definition format_015b :: "int \<Rightarrow> string" where
  "format_015b n =
     (if n < 0 then
        CHR ''-'' # replicate (14 - length (bin (nat (- n)))) (CHR ''0'') @ bin (nat (- n))
      else replicate (15 - length (bin (nat n))) (CHR ''0'') @ bin (nat n))"

text \<open>\<open>Board.from_configuration_id\<close>: the default board (position 14 empty), then one
  assignment for every character of the key.\<close>

fun from_key :: "(nat \<times> char) list \<Rightarrow> board \<Rightarrow> error + board" where
  "from_key [] board = Inr board"
| "from_key ((pos, c) # rest) board =
     (if c = CHR ''1'' then
        (case set_pin_status (int pos) True board of
           (Inl e, _) \<Rightarrow> Inl e
         | (Inr _, board') \<Rightarrow> from_key rest board')
      else if c = CHR ''0'' then
        (case set_pin_status (int pos) False board of
           (Inl e, _) \<Rightarrow> Inl e
         | (Inr _, board') \<Rightarrow> from_key rest board')
      else Inl (ValueError (''Invalid character in key: '' @ [c])))"

definition from_configuration_id :: "int \<Rightarrow> error + board" where
  "from_configuration_id conf_id =
     (case init 14 None of
        Inl e \<Rightarrow> Inl e
      | Inr board \<Rightarrow> from_key (enumerate 0 (format_015b conf_id)) board)"

text \<open>\<open>int(s, 2)\<close> on a string of binary digits, the only strings \<open>str\<close> of a board
  gives; the empty string and a string with another character are a ValueError here
  (Python accepts a sign, blanks, underscores and a prefix \<open>0b\<close> as well, which no board
  prints).\<close>

definition int_base2 :: "string \<Rightarrow> error + int" where
  "int_base2 s =
     (if s = [] \<or> (\<exists>c \<in> set s. c \<noteq> CHR ''0'' \<and> c \<noteq> CHR ''1'') then
        Inl (ValueError ''invalid literal for int() with base 2'')
      else Inr (foldl (\<lambda>acc c. 2 * acc + (if c = CHR ''1'' then 1 else 0)) 0 s))"

text \<open>The expression \<open>int(str(board), 2)\<close> of \<open>save_boards\<close>.\<close>

definition int_str_board :: "board \<Rightarrow> error + int" where
  "int_str_board board = int_base2 (str board)"

section \<open>The search (triangles/commands.py, triangles/core.py)\<close>

text \<open>The inner loop of both \<open>increment_boards\<close>: every move is played on a copy of the
  board, and the copy joins the won boards or the new boards.\<close>

fun play_moves ::
  "board \<Rightarrow> move list \<Rightarrow> board list \<Rightarrow> board list \<Rightarrow> error + (board list \<times> board list)" where
  "play_moves board [] new_boards won_boards = Inr (new_boards, won_boards)"
| "play_moves board ((start, end, jump) # rest) new_boards won_boards =
     (case copy board of
        Inl e \<Rightarrow> Inl e
      | Inr new_board \<Rightarrow>
          (case move start end jump new_board of
             (Inl e, _) \<Rightarrow> Inl e
           | (Inr _, new_board') \<Rightarrow>
               if is_won new_board' then
                 play_moves board rest new_boards (won_boards @ [new_board'])
               else play_moves board rest (new_boards @ [new_board']) won_boards))"

text \<open>\<open>increment_boards\<close> of commands.py: a board without a move joins the lost
  boards.\<close>

fun increment_loop ::
  "board list \<Rightarrow> board list \<Rightarrow> board list \<Rightarrow> board list \<Rightarrow>
   error + (board list \<times> board list \<times> board list)" where
  "increment_loop [] new_boards won_boards lost_boards =
     Inr (new_boards, won_boards, lost_boards)"
| "increment_loop (board # rest) new_boards won_boards lost_boards =
     (case moves board of
        Inl e \<Rightarrow> Inl e
      | Inr ms \<Rightarrow>
          if length ms < 1 then
            increment_loop rest new_boards won_boards (lost_boards @ [board])
          else
            (case play_moves board ms new_boards won_boards of
               Inl e \<Rightarrow> Inl e
             | Inr (new_boards', won_boards') \<Rightarrow>
                 increment_loop rest new_boards' won_boards' lost_boards))"

definition increment_boards ::
  "board list \<Rightarrow> error + (board list \<times> board list \<times> board list)" where
  "increment_boards boards = increment_loop boards [] [] []"







text \<open>\<open>consolidate_solutions\<close> of core.py.  Its result is a Python value: the list of
  solution sets, or the exception object that the first loop returns.  The text of
  \<open>__repr__\<close> holds \<open>id(self)\<close>, which is a parameter here.\<close>

datatype solutions = Error_object error | Solution_sets "board list list"

definition repr :: "(board \<Rightarrow> string) \<Rightarrow> board \<Rightarrow> string" where
  "repr ident self =
     ''<Board at '' @ ident self @ '', won='' @ (if is_won self then ''True'' else ''False'')
       @ ''>''"

fun first_not_won :: "board list \<Rightarrow> board option" where
  "first_not_won [] = None"
| "first_not_won (board # rest) = (if \<not> is_won board then Some board else first_not_won rest)"

fun add_to_sets :: "board \<Rightarrow> board list list \<Rightarrow> error + board list list" where
  "add_to_sets board [] = Inr [[board]]"
| "add_to_sets board (solution_set # rest) =
     (case solution_set of
        [] \<Rightarrow> Inl IndexError
      | first # _ \<Rightarrow>
          (case board_eq board first of
             Inl e \<Rightarrow> Inl e
           | Inr same \<Rightarrow>
               if same then Inr ((solution_set @ [board]) # rest)
               else
                 (case add_to_sets board rest of
                    Inl e \<Rightarrow> Inl e
                  | Inr rest' \<Rightarrow> Inr (solution_set # rest'))))"

fun group_solutions :: "board list \<Rightarrow> board list list \<Rightarrow> error + board list list" where
  "group_solutions [] solution_sets = Inr solution_sets"
| "group_solutions (board # rest) solution_sets =
     (if solution_sets = [] then group_solutions rest (solution_sets @ [[board]])
      else
        (case add_to_sets board solution_sets of
           Inl e \<Rightarrow> Inl e
         | Inr solution_sets' \<Rightarrow> group_solutions rest solution_sets'))"

definition consolidate_solutions :: "(board \<Rightarrow> string) \<Rightarrow> board list \<Rightarrow> error + solutions" where
  "consolidate_solutions ident boards =
     (case first_not_won boards of
        Some board \<Rightarrow>
          Inr (Error_object (ValueError (''Board '' @ repr ident board @ '' has not been won'')))
      | None \<Rightarrow>
          (case group_solutions boards [] of
             Inl e \<Rightarrow> Inl e
           | Inr solution_sets \<Rightarrow> Inr (Solution_sets solution_sets)))"

section \<open>Transformations between stored configurations (triangles/commands.py)\<close>

text \<open>A stored configuration (triangles/persistance.py) and a transformation added to
  the session; \<open>conf_id\<close> and \<open>conf_won\<close> are the columns \<open>id\<close> and \<open>won\<close>.\<close>

record configuration =
  conf_id :: int
  conf_won :: bool

record transformation =
  to_configuration :: configuration
  from_configuration :: configuration
  desc :: string

fun scan_unique ::
  "board \<Rightarrow> (configuration \<times> board) list \<Rightarrow> error + configuration option" where
  "scan_unique t_board [] = Inr None"
| "scan_unique t_board ((unique_conf, unique_board) # rest) =
     (case board_eq t_board unique_board of
        Inl e \<Rightarrow> Inl e
      | Inr same \<Rightarrow> if same then Inr (Some unique_conf) else scan_unique t_board rest)"

definition check_transformation ::
  "board \<Rightarrow> (int \<times> int) list \<Rightarrow> (configuration \<times> board) list \<Rightarrow>
   error + configuration option" where
  "check_transformation board tx unique_configurations =
     (case copy board of
        Inl e \<Rightarrow> Inl e
      | Inr t_board \<Rightarrow>
          (case transform tx t_board of
             (Inl e, _) \<Rightarrow> Inl e
           | (Inr _, t_board') \<Rightarrow> scan_unique t_board' unique_configurations))"

text \<open>The loop over the valid transformations for one working configuration: the flag
  \<open>unique\<close> and the transformations added to the session so far.\<close>

fun transformations_loop ::
  "configuration \<Rightarrow> board \<Rightarrow> (configuration \<times> board) list \<Rightarrow>
   (string \<times> (int \<times> int) list) list \<Rightarrow> bool \<Rightarrow> transformation list \<Rightarrow>
   error + (bool \<times> transformation list)" where
  "transformations_loop working_conf board unique_configurations [] unique session =
     Inr (unique, session)"
| "transformations_loop working_conf board unique_configurations ((d, tx) # rest)
       unique session =
     (case check_transformation board tx unique_configurations of
        Inl e \<Rightarrow> Inl e
      | Inr None \<Rightarrow>
          transformations_loop working_conf board unique_configurations rest unique session
      | Inr (Some matched_conf) \<Rightarrow>
          transformations_loop working_conf board unique_configurations rest False
            (session @
              [\<lparr>to_configuration = matched_conf, from_configuration = working_conf,
                desc = d\<rparr>]))"

fun findtransformations_loop ::
  "configuration list \<Rightarrow> (configuration \<times> board) list \<Rightarrow> transformation list \<Rightarrow>
   error + ((configuration \<times> board) list \<times> transformation list)" where
  "findtransformations_loop [] unique_configurations session =
     Inr (unique_configurations, session)"
| "findtransformations_loop (working_conf # rest) unique_configurations session =
     (case from_configuration_id (conf_id working_conf) of
        Inl e \<Rightarrow> Inl e
      | Inr board \<Rightarrow>
          (case (if unique_configurations \<noteq> [] then
                   transformations_loop working_conf board unique_configurations
                     valid_transformations True session
                 else Inr (True, session)) of
             Inl e \<Rightarrow> Inl e
           | Inr (unique, session') \<Rightarrow>
               findtransformations_loop rest
                 (if unique then unique_configurations @ [(working_conf, board)]
                  else unique_configurations)
                 session'))"

text \<open>\<open>findtransformations\<close>, on the configurations the query returns, in its order: the
  unique configurations and the transformations added to the session.\<close>

definition findtransformations ::
  "configuration list \<Rightarrow> error + ((configuration \<times> board) list \<times> transformation list)" where
  "findtransformations configurations = findtransformations_loop configurations [] []"

section \<open>Notions for the properties\<close>

text \<open>A board as the constructor and the methods leave it: the dictionary has the keys
  0 to 14, in this order, and \<open>empty_position\<close> passed the constructor's check.  The
  occupied count of a board is the length of \<open>occupied_positions\<close>.\<close>

definition wf_board :: "board \<Rightarrow> bool" where
  "wf_board b =
     (map fst (pins b) = [0..14] \<and> 0 \<le> empty_position b \<and> empty_position b \<le> 14)"

definition occupied_count :: "board \<Rightarrow> nat" where
  "occupied_count b = length (occupied_positions b)"

text \<open>The board constructed with the default \<open>empty_position = 14\<close>.\<close>

definition root14 :: board where
  "root14 = Board (init_pins 14) None 14"

text \<open>\<open>jumped\<close> is the board that a successful \<open>move\<close> leaves, and \<open>child b m\<close> the
  board that the search makes of \<open>b\<close> and its move \<open>m\<close>: the move played on the copy of
  \<open>b\<close>.  The measure of a frontier bounds the number of generation steps still possible
  from it; both loops of the search terminate by it.\<close>

definition jumped :: "move \<Rightarrow> board \<Rightarrow> board" where
  "jumped m c =
     (case m of (s, e, j) \<Rightarrow>
        Board (AList.update e True (AList.update j False (AList.update s False (pins c))))
          (previous_board c) (empty_position c))"

definition child :: "board \<Rightarrow> move \<Rightarrow> board" where
  "child b m = jumped m (Board (pins b) (Some b) (empty_position b))"

definition children :: "board \<Rightarrow> board list" where
  "children b = (case moves b of Inl _ \<Rightarrow> [] | Inr ms \<Rightarrow> map (child b) ms)"



text \<open>The generations of the search, by \<open>increment_boards\<close> of commands.py:
  \<open>frontier k boards\<close> is the frontier after \<open>k\<close> generation steps from \<open>boards\<close>,
  \<open>won_in k boards\<close> and \<open>lost_in k boards\<close> are the boards that the next step, the step
  on \<open>frontier k boards\<close>, classifies as won and as dead ends.  \<open>generations n boards\<close>:
  the frontier is empty after \<open>n\<close> steps and after no fewer.\<close>

fun frontier :: "nat \<Rightarrow> board list \<Rightarrow> error + board list" where
  "frontier 0 boards = Inr boards"
| "frontier (Suc k) boards =
     (case increment_boards boards of
        Inl e \<Rightarrow> Inl e
      | Inr (boards', _, _) \<Rightarrow> frontier k boards')"



definition generations :: "nat \<Rightarrow> board list \<Rightarrow> bool" where
  "generations n boards =
     (frontier n boards = Inr [] \<and> (\<forall>k<n. \<exists>f. frontier k boards = Inr f \<and> f \<noteq> []))"

text \<open>A line of six moves from \<open>root14\<close> that ends in a board with eight pins and no
  move.\<close>

definition line_1 :: board where
  "line_1 = child root14 (9, 14, 12)"

definition line_2 :: board where
  "line_2 = child line_1 (2, 9, 6)"

definition line_3 :: board where
  "line_3 = child line_2 (8, 6, 7)"

definition line_4 :: board where
  "line_4 = child line_3 (5, 7, 6)"

definition line_5 :: board where
  "line_5 = child line_4 (11, 2, 7)"

definition dead_end :: board where
  "dead_end = child line_5 (14, 11, 13)"

text \<open>A character of a binary string.\<close>

definition is_bit :: "char \<Rightarrow> bool" where
  "is_bit c = (c = CHR ''0'' \<or> c = CHR ''1'')"



text \<open>Two stored configurations and their boards: only position 4 occupied, and only
  position 0 occupied.  \<open>edges_for\<close> lists, for a working configuration, one
  transformation for every valid transformation that \<open>check_transformation\<close> matches.\<close>

definition conf_1024 :: configuration where
  "conf_1024 = \<lparr>conf_id = 1024, conf_won = True\<rparr>"

definition conf_16384 :: configuration where
  "conf_16384 = \<lparr>conf_id = 16384, conf_won = True\<rparr>"

definition board_1024 :: board where
  "board_1024 =
     Board [(0,False),(1,False),(2,False),(3,False),(4,True),(5,False),(6,False),(7,False),
       (8,False),(9,False),(10,False),(11,False),(12,False),(13,False),(14,False)] None 14"

definition board_16384 :: board where
  "board_16384 =
     Board [(0,True),(1,False),(2,False),(3,False),(4,False),(5,False),(6,False),(7,False),
       (8,False),(9,False),(10,False),(11,False),(12,False),(13,False),(14,False)] None 14"

definition edges_for ::
  "configuration \<Rightarrow> board \<Rightarrow> (configuration \<times> board) list \<Rightarrow>
   (string \<times> (int \<times> int) list) list \<Rightarrow> transformation list" where
  "edges_for working_conf board unique_configurations txs =
     concat (map (\<lambda>(d, tx).
       case check_transformation board tx unique_configurations of
         Inr (Some matched_conf) \<Rightarrow>
           [\<lparr>to_configuration = matched_conf, from_configuration = working_conf, desc = d\<rparr>]
       | _ \<Rightarrow> []) txs)"

section \<open>Properties of the board\<close>

subsection \<open>Positions, lookups and assignments\<close>

lemma range15: "[0..14] = [0,1,2,3,4,5,6,7,8,9,10,11,12,13,14::int]"
  by (simp add: upto_rec1)

lemma validate_in_range: "0 \<le> p \<Longrightarrow> p \<le> 14 \<Longrightarrow> validate_position p n = Inr ()"
  by (simp add: validate_position_def)


lemma validate_Inr_iff: "validate_position p n = Inr u \<longleftrightarrow> 0 \<le> p \<and> p \<le> 14"
  by (simp add: validate_position_def)

lemma wf_lookup:
  assumes "wf_board b" "0 \<le> p" "p \<le> 14"
  shows "\<exists>s. map_of (pins b) p = Some s"
proof -
  have "p \<in> set (map fst (pins b))" using assms by (simp add: wf_board_def)
  then have "p \<in> dom (map_of (pins b))" by (simp add: dom_map_of_conv_image_fst)
  then show ?thesis by blast
qed

lemma wf_keys: "wf_board b \<Longrightarrow> map_of (pins b) p = Some s \<Longrightarrow> 0 \<le> p \<and> p \<le> 14"
proof -
  assume w: "wf_board b" and m: "map_of (pins b) p = Some s"
  from m have "p \<in> fst ` set (pins b)" by (force dest: map_of_SomeD)
  then have "p \<in> set [0..14]" using w by (metis wf_board_def list.set_map)
  then show ?thesis by simp
qed

lemma pin_status_Inr:
  "pin_status b p = Inr s \<longleftrightarrow> 0 \<le> p \<and> p \<le> 14 \<and> map_of (pins b) p = Some s"
  by (auto simp: pin_status_def validate_position_def split: option.splits)

lemma set_pin_status_in_range:
  "0 \<le> p \<Longrightarrow> p \<le> 14 \<Longrightarrow>
   set_pin_status p s b =
     (Inr (), Board (AList.update p s (pins b)) (previous_board b) (empty_position b))"
  by (simp add: set_pin_status_def validate_in_range)



lemma count_update:
  "map_of ps k = Some old \<Longrightarrow>
   length (filter snd (AList.update k v ps)) + (if old then 1 else 0) =
   length (filter snd ps) + (if v then 1 else 0)"
  by (induction ps) (auto split: if_splits)

lemma occupied_count_eq: "occupied_count b = length (filter snd (pins b))"
proof -
  have "(\<lambda>(position, status). status = True) = (snd :: int \<times> bool \<Rightarrow> bool)" by auto
  then show ?thesis by (simp add: occupied_count_def occupied_positions_def)
qed


lemma in_range_cases:
  "0 \<le> (p::int) \<Longrightarrow> p \<le> 14 \<Longrightarrow>
   p = 0 \<or> p = 1 \<or> p = 2 \<or> p = 3 \<or> p = 4 \<or> p = 5 \<or> p = 6 \<or> p = 7 \<or> p = 8 \<or> p = 9
   \<or> p = 10 \<or> p = 11 \<or> p = 12 \<or> p = 13 \<or> p = 14"
  by arith

lemma table_facts:
  assumes "valid_moves_for_position p = Inr tbl" "(s, e, j) \<in> set tbl"
  shows "s = p \<and> s \<noteq> e \<and> s \<noteq> j \<and> e \<noteq> j \<and> 0 \<le> s \<and> s \<le> 14 \<and> 0 \<le> e \<and> e \<le> 14
         \<and> 0 \<le> j \<and> j \<le> 14"
proof -
  have r: "0 \<le> p" "p \<le> 14"
    using assms(1) by (auto simp: valid_moves_for_position_def validate_position_def split: if_splits)
  from in_range_cases[OF r] show ?thesis
    using assms by (elim disjE) (auto simp: valid_moves_for_position_def validate_position_def)
qed

lemma filter_moves_sound:
  "filter_moves b tbl = Inr ms \<Longrightarrow> (s, e, j) \<in> set ms \<Longrightarrow>
   (s, e, j) \<in> set tbl \<and> pin_status b e = Inr False \<and> pin_status b j = Inr True"
proof (induction tbl arbitrary: ms)
  case Nil
  then show ?case by simp
next
  case (Cons m tbl)
  obtain s' e' j' where m: "m = (s', e', j')" by (cases m) auto
  show ?case using Cons.prems Cons.IH unfolding m
    by (auto split: sum.splits if_splits)
qed

lemma filter_moves_total:
  "wf_board b \<Longrightarrow> \<forall>(s, e, j) \<in> set tbl. 0 \<le> e \<and> e \<le> 14 \<and> 0 \<le> j \<and> j \<le> 14 \<Longrightarrow>
   \<exists>ms. filter_moves b tbl = Inr ms"
proof (induction tbl)
  case Nil
  then show ?case by simp
next
  case (Cons m tbl)
  obtain s' e' j' where m: "m = (s', e', j')" by (cases m) auto
  obtain se where se: "pin_status b e' = Inr se"
    using Cons.prems wf_lookup[of b e'] unfolding m by (auto simp: pin_status_Inr)
  obtain sj where sj: "pin_status b j' = Inr sj"
    using Cons.prems wf_lookup[of b j'] unfolding m by (auto simp: pin_status_Inr)
  obtain ms where ms: "filter_moves b tbl = Inr ms" using Cons by auto
  show ?case unfolding m using se sj ms by simp
qed

lemma moves_for_position_sound:
  "moves_for_position b p = Inr ms \<Longrightarrow> (s, e, j) \<in> set ms \<Longrightarrow>
   s = p \<and> s \<noteq> e \<and> s \<noteq> j \<and> e \<noteq> j \<and>
   map_of (pins b) s = Some True \<and> pin_status b e = Inr False \<and> pin_status b j = Inr True"
  by (auto simp: moves_for_position_def split: sum.splits option.splits if_splits
      dest: filter_moves_sound table_facts)

lemma moves_for_position_total:
  assumes "wf_board b" "0 \<le> p" "p \<le> 14"
  shows "\<exists>ms. moves_for_position b p = Inr ms"
proof -
  obtain st where st: "map_of (pins b) p = Some st" using wf_lookup assms by blast
  obtain tbl where tbl: "valid_moves_for_position p = Inr tbl"
    using assms by (simp add: valid_moves_for_position_def validate_in_range)
  have "\<forall>(s, e, j) \<in> set tbl. 0 \<le> e \<and> e \<le> 14 \<and> 0 \<le> j \<and> j \<le> 14"
    using table_facts[OF tbl] by blast
  then obtain ms where "filter_moves b tbl = Inr ms"
    using filter_moves_total[OF assms(1)] by blast
  then show ?thesis using st tbl assms by (simp add: moves_for_position_def validate_in_range)
qed

lemma moves_loop_sound:
  "moves_loop b ps acc = Inr ms \<Longrightarrow> m \<in> set ms \<Longrightarrow>
   m \<in> set acc \<or> (\<exists>p \<in> set ps. \<exists>ms'. moves_for_position b p = Inr ms' \<and> m \<in> set ms')"
  by (induction b ps acc rule: moves_loop.induct) (auto split: sum.splits)

lemma moves_loop_total:
  "wf_board b \<Longrightarrow> \<forall>p \<in> set ps. 0 \<le> p \<and> p \<le> 14 \<Longrightarrow> \<exists>ms. moves_loop b ps acc = Inr ms"
proof (induction b ps acc rule: moves_loop.induct)
  case (1 self acc)
  then show ?case by simp
next
  case (2 self position rest acc)
  then obtain ms where "moves_for_position self position = Inr ms"
    using moves_for_position_total[of self position] by auto
  then show ?case using 2 by auto
qed

lemma moves_sound:
  assumes "moves b = Inr ms" "(s, e, j) \<in> set ms"
  shows "s \<noteq> e \<and> s \<noteq> j \<and> e \<noteq> j \<and>
         pin_status b s = Inr True \<and> pin_status b e = Inr False \<and> pin_status b j = Inr True"
proof -
  obtain p ms' where p: "moves_for_position b p = Inr ms'" "(s, e, j) \<in> set ms'"
    using moves_loop_sound[OF assms(1)[unfolded moves_def] assms(2)] by auto
  have r: "0 \<le> p \<and> p \<le> 14" using p(1)
    by (auto simp: moves_for_position_def validate_position_def split: if_splits)
  show ?thesis using moves_for_position_sound[OF p] r by (auto simp: pin_status_Inr)
qed

lemma occupied_in_range: "wf_board b \<Longrightarrow> p \<in> set (occupied_positions b) \<Longrightarrow> 0 \<le> p \<and> p \<le> 14"
proof -
  assume w: "wf_board b" and "p \<in> set (occupied_positions b)"
  then have "p \<in> fst ` set (pins b)" by (auto simp: occupied_positions_def)
  then have "p \<in> set [0..14]" using w by (metis wf_board_def list.set_map)
  then show ?thesis by simp
qed

lemma moves_total: "wf_board b \<Longrightarrow> \<exists>ms. moves b = Inr ms"
  unfolding moves_def using moves_loop_total occupied_in_range by blast

lemma move_Inr:
  assumes "move s e j c = (Inr u, c')" "s \<noteq> j"
  shows "occupied_count c' + 1 = occupied_count c \<and>
         pins c' = AList.update e True (AList.update j False (AList.update s False (pins c))) \<and>
         previous_board c' = previous_board c \<and> empty_position c' = empty_position c \<and>
         pin_status c s = Inr True \<and> pin_status c e = Inr False \<and> pin_status c j = Inr True"
proof -
  have st: "pin_status c s = Inr True \<and> pin_status c e = Inr False \<and> pin_status c j = Inr True"
    using assms(1) by (auto simp: move_def split: sum.splits if_splits prod.splits)
  then have r: "0 \<le> s" "s \<le> 14" "0 \<le> e" "e \<le> 14" "0 \<le> j" "j \<le> 14"
    and m: "map_of (pins c) s = Some True" "map_of (pins c) e = Some False"
      "map_of (pins c) j = Some True"
    by (simp_all add: pin_status_Inr)
  have ne: "e \<noteq> s" "e \<noteq> j" using m by auto
  have c': "c' = Board (AList.update e True (AList.update j False (AList.update s False (pins c))))
      (previous_board c) (empty_position c)"
    using assms(1) st r by (simp add: move_def validate_in_range set_pin_status_in_range)
  have 1: "length (filter snd (AList.update s False (pins c))) + 1 = length (filter snd (pins c))"
    using count_update[OF m(1), of False] by simp
  have "map_of (AList.update s False (pins c)) j = Some True"
    using m assms(2) by (simp add: update_conv')
  from count_update[OF this, of False]
  have 2: "length (filter snd (AList.update j False (AList.update s False (pins c)))) + 1
      = length (filter snd (AList.update s False (pins c)))" by simp
  have "map_of (AList.update j False (AList.update s False (pins c))) e = Some False"
    using m ne by (simp add: update_conv')
  from count_update[OF this, of True]
  have 3: "length (filter snd (AList.update e True (AList.update j False (AList.update s False (pins c)))))
      = length (filter snd (AList.update j False (AList.update s False (pins c)))) + 1" by simp
  show ?thesis using 1 2 3 c' st by (simp add: occupied_count_eq)
qed

lemma move_success:
  assumes "pin_status c s = Inr True" "pin_status c e = Inr False" "pin_status c j = Inr True"
  shows "\<exists>c'. move s e j c = (Inr (), c')"
proof -
  have r: "0 \<le> s" "s \<le> 14" "0 \<le> e" "e \<le> 14" "0 \<le> j" "j \<le> 14"
    using assms by (simp_all add: pin_status_Inr)
  show ?thesis using assms r
    by (simp add: move_def validate_in_range set_pin_status_in_range)
qed


subsection \<open>Copies\<close>

lemma wf_explicit:
  assumes "wf_board b"
  shows "\<exists>v0 v1 v2 v3 v4 v5 v6 v7 v8 v9 v10 v11 v12 v13 v14.
    pins b = [(0,v0),(1,v1),(2,v2),(3,v3),(4,v4),(5,v5),(6,v6),(7,v7),(8,v8),(9,v9),
              (10,v10),(11,v11),(12,v12),(13,v13),(14,v14)]"
proof -
  have "map fst (pins b) = [0,1,2,3,4,5,6,7,8,9,10,11,12,13,14]"
    using assms by (simp add: wf_board_def range15)
  then show ?thesis
    by (auto simp: map_eq_Cons_conv)
qed

lemma init_pins_keys: "map fst (init_pins p) = [0..14]"
  by (simp add: init_pins_def range15)

lemma init_Inr:
  "init p prev = Inr b \<longleftrightarrow> 0 \<le> p \<and> p \<le> 14 \<and> b = Board (init_pins p) prev p"
  by (auto simp: init_def validate_position_def)

lemma init_wf: "init p prev = Inr b \<Longrightarrow> wf_board b"
  by (auto simp: init_Inr wf_board_def init_pins_keys)



lemma copy_of_wf:
  assumes "wf_board b"
  shows "copy b = Inr (Board (pins b) (Some b) (empty_position b))"
proof -
  obtain v0 v1 v2 v3 v4 v5 v6 v7 v8 v9 v10 v11 v12 v13 v14 where
    p: "pins b = [(0,v0),(1,v1),(2,v2),(3,v3),(4,v4),(5,v5),(6,v6),(7,v7),(8,v8),(9,v9),
              (10,v10),(11,v11),(12,v12),(13,v13),(14,v14)]"
    using wf_explicit[OF assms] by blast
  have r: "0 \<le> empty_position b" "empty_position b \<le> 14"
    using assms by (simp_all add: wf_board_def)
  show ?thesis
    by (simp add: copy_def init_def validate_in_range r p init_pins_def range15
        set_pin_status_in_range)
qed

subsection \<open>One generation of the search, and termination of both loops\<close>
















section \<open>Moves\<close>

lemma init_pins_14:
  "init_pins 14 = [(0,True),(1,True),(2,True),(3,True),(4,True),(5,True),(6,True),(7,True),
     (8,True),(9,True),(10,True),(11,True),(12,True),(13,True),(14,False)]"
  by (simp add: init_pins_def range15)

lemma init_14: "init 14 None = Inr root14"
  by (simp add: init_def validate_position_def root14_def)

lemma wf_root14: "wf_board root14"
  using init_wf[OF init_14] .

lemma moves_root14: "moves root14 = Inr [(9, 14, 12), (11, 14, 13)]"
  by (simp add: root14_def init_pins_14 moves_def occupied_positions_def moves_for_position_def
      valid_moves_for_position_def pin_status_def validate_position_def)

text \<open>C8: on the freshly constructed board with \<open>empty_position = 14\<close>, \<open>moves\<close>
  returns the two moves (9, 14, 12) and (11, 14, 13), in this order, and no other.\<close>

theorem moves_of_fresh_board:
  "\<exists>b. init 14 None = Inr b \<and> moves b = Inr [(9, 14, 12), (11, 14, 13)]"
  by (simp add: init_14 moves_root14)

text \<open>C4: on a board and three positions in range, \<open>move\<close> raises ValueError when the
  start is empty, the end is occupied or the jumped position is empty, and the board is
  then as it was; otherwise it returns, start and jump are empty, end is occupied and
  every other position keeps its status.\<close>

theorem move_spec:
  assumes "wf_board b" "0 \<le> start" "start \<le> 14" "0 \<le> end" "end \<le> 14" "0 \<le> jump" "jump \<le> 14"
  shows "if pin_status b start = Inr True \<and> pin_status b end = Inr False
            \<and> pin_status b jump = Inr True
         then \<exists>b'. move start end jump b = (Inr (), b')
                \<and> pin_status b' start = Inr False \<and> pin_status b' jump = Inr False
                \<and> pin_status b' end = Inr True
                \<and> (\<forall>p. p \<noteq> start \<and> p \<noteq> jump \<and> p \<noteq> end \<longrightarrow> pin_status b' p = pin_status b p)
         else \<exists>msg. move start end jump b = (Inl (ValueError msg), b)"
proof -
  obtain s1 where s1: "map_of (pins b) start = Some s1" using wf_lookup assms by blast
  obtain s2 where s2: "map_of (pins b) end = Some s2" using wf_lookup assms by blast
  obtain s3 where s3: "map_of (pins b) jump = Some s3" using wf_lookup assms by blast
  show ?thesis using assms s1 s2 s3
    by (auto simp: move_def validate_in_range pin_status_def set_pin_status_in_range update_conv'
        split: sum.splits)
qed

theorem move_spec_witness:
  "wf_board root14 \<and>
   (\<exists>b'. move 9 14 12 root14 = (Inr (), b') \<and> pin_status b' 9 = Inr False
      \<and> pin_status b' 12 = Inr False \<and> pin_status b' 14 = Inr True
      \<and> pin_status b' 0 = pin_status root14 0) \<and>
   (\<exists>msg. move 14 9 12 root14 = (Inl (ValueError msg), root14))"
proof -
  have p: "pin_status root14 9 = Inr True" "pin_status root14 14 = Inr False"
    "pin_status root14 12 = Inr True"
    by (simp_all add: root14_def init_pins_14 pin_status_def validate_position_def)
  have 1: "\<exists>b'. move 9 14 12 root14 = (Inr (), b') \<and> pin_status b' 9 = Inr False
      \<and> pin_status b' 12 = Inr False \<and> pin_status b' 14 = Inr True
      \<and> pin_status b' 0 = pin_status root14 0"
    using move_spec[OF wf_root14, of 9 14 12] p by fastforce
  have 2: "\<exists>msg. move 14 9 12 root14 = (Inl (ValueError msg), root14)"
    using move_spec[OF wf_root14, of 14 9 12] p by simp
  show ?thesis using wf_root14 1 2 by blast
qed

text \<open>C5: \<open>moves\<close> returns on every board, and every move it lists can be played on
  the board: \<open>move\<close> raises nothing and leaves one occupied position less.\<close>

theorem moves_applicable:
  assumes "wf_board b"
  shows "\<exists>ms. moves b = Inr ms \<and>
           (\<forall>(s, e, j) \<in> set ms.
              \<exists>b'. move s e j b = (Inr (), b') \<and> occupied_count b' + 1 = occupied_count b)"
proof -
  obtain ms where ms: "moves b = Inr ms" using moves_total[OF assms] by blast
  have "\<exists>b'. move s e j b = (Inr (), b') \<and> occupied_count b' + 1 = occupied_count b"
    if m: "(s, e, j) \<in> set ms" for s e j
  proof -
    note f = moves_sound[OF ms m]
    obtain b' where b': "move s e j b = (Inr (), b')" using move_success[of b s e j] f by blast
    from move_Inr[OF b'] f have "occupied_count b' + 1 = occupied_count b" by simp
    then show ?thesis using b' by blast
  qed
  then show ?thesis using ms by blast
qed

theorem moves_applicable_witness:
  "wf_board root14 \<and> moves root14 = Inr [(9, 14, 12), (11, 14, 13)] \<and>
   occupied_count root14 = 14 \<and>
   (\<exists>b'. move 9 14 12 root14 = (Inr (), b') \<and> occupied_count b' = 13) \<and>
   (\<exists>b'. move 11 14 13 root14 = (Inr (), b') \<and> occupied_count b' = 13)"
proof -
  have c: "occupied_count root14 = 14"
    by (simp add: occupied_count_eq root14_def init_pins_14)
  show ?thesis using moves_applicable[OF wf_root14] wf_root14 c
    by (auto simp: moves_root14)
qed

text \<open>C10: every triple of the rule table of a position starts at that position, has
  three distinct positions in range, and its reversal (end, start, jump) is in the table
  of its end.\<close>

theorem move_table_symmetric:
  assumes "0 \<le> p" "p \<le> 14"
  shows "\<exists>tbl. valid_moves_for_position p = Inr tbl \<and>
           (\<forall>(s, e, j) \<in> set tbl.
              s = p \<and> s \<noteq> e \<and> s \<noteq> j \<and> e \<noteq> j \<and>
              0 \<le> s \<and> s \<le> 14 \<and> 0 \<le> e \<and> e \<le> 14 \<and> 0 \<le> j \<and> j \<le> 14 \<and>
              (\<exists>tbl'. valid_moves_for_position e = Inr tbl' \<and> (e, s, j) \<in> set tbl'))"
  using in_range_cases[OF assms]
  by (elim disjE) (simp_all add: valid_moves_for_position_def validate_position_def)

theorem move_table_symmetric_witness:
  "valid_moves_for_position 9 = Inr [(9, 0, 5), (9, 2, 6), (9, 11, 10), (9, 14, 12)] \<and>
   (\<exists>tbl'. valid_moves_for_position 14 = Inr tbl' \<and> (14, 9, 12) \<in> set tbl')"
  using move_table_symmetric[of 9]
  by (simp add: valid_moves_for_position_def validate_position_def)

section \<open>The configuration id round trip\<close>

lemma length15:
  "length xs = 15 \<Longrightarrow>
   \<exists>c0 c1 c2 c3 c4 c5 c6 c7 c8 c9 c10 c11 c12 c13 c14.
     xs = [c0,c1,c2,c3,c4,c5,c6,c7,c8,c9,c10,c11,c12,c13,c14]"
  by (clarsimp simp: length_Suc_conv eval_nat_numeral)

lemma is_bit_bit_char: "is_bit (bit_char d)"
  by (simp add: is_bit_def bit_char_def)

lemma bin_bits: "\<forall>c \<in> set (bin n). is_bit c"
proof (induction n rule: bin.induct)
  case (1 n)
  show ?case
  proof (cases "n < 2")
    case True
    then show ?thesis by (simp add: bin.simps[of n] is_bit_bit_char)
  next
    case False
    then show ?thesis using 1 by (simp add: bin.simps[of n] is_bit_bit_char)
  qed
qed

lemma bin_length: "n < 2 ^ k \<Longrightarrow> 0 < k \<Longrightarrow> length (bin n) \<le> k"
proof (induction n arbitrary: k rule: bin.induct)
  case (1 n)
  show ?case
  proof (cases "n < 2")
    case True
    then show ?thesis using 1(3) by (simp add: bin.simps[of n])
  next
    case False
    obtain k' where k: "k = Suc k'" using 1(3) by (cases k) auto
    have "k' \<noteq> 0" using False 1(2) k by (cases k') auto
    moreover have "n div 2 < 2 ^ k'" using 1(2) k by auto
    ultimately have "length (bin (n div 2)) \<le> k'" using 1(1)[OF False] by simp
    then show ?thesis using False k by (simp add: bin.simps[of n])
  qed
qed

lemma bin_nonempty: "bin n \<noteq> []"
  by (simp add: bin.simps[of n])

lemma foldl_bin:
  "foldl (\<lambda>acc c. 2 * acc + (if c = CHR ''1'' then 1 else 0)) 0 (bin n) = int n"
proof (induction n rule: bin.induct)
  case (1 n)
  show ?case
  proof (cases "n < 2")
    case True
    then have "n = 0 \<or> n = 1" by auto
    then show ?thesis by (auto simp: bin.simps[of n] bit_char_def)
  next
    case False
    have "n = 2 * (n div 2) + n mod 2" by simp
    then have "int n = int (2 * (n div 2) + n mod 2)" by (rule arg_cong)
    then have "int n = 2 * int (n div 2) + int (n mod 2)" by (simp only: of_nat_add of_nat_mult of_nat_numeral)
    moreover have "(if bit_char (n mod 2) = CHR ''1'' then 1 else 0) = int (n mod 2)"
      by (cases "n mod 2 = 1") (auto simp: bit_char_def)
    ultimately show ?thesis using False 1 by (simp add: bin.simps[of n])
  qed
qed

lemma foldl_zeros:
  "foldl (\<lambda>acc c. 2 * acc + (if c = CHR ''1'' then 1 else 0)) (0::int) (replicate k (CHR ''0'') @ s)
   = foldl (\<lambda>acc c. 2 * acc + (if c = CHR ''1'' then 1 else 0)) 0 s"
  by (induction k) simp_all

lemma foldl_replicate_zeros:
  "foldl (\<lambda>acc c. 2 * acc + (if c = CHR ''1'' then 1 else 0)) (0::int) (replicate k (CHR ''0'')) = 0"
  by (induction k) simp_all

lemma format_nat_bound: "0 \<le> x \<Longrightarrow> x < 2 ^ 15 \<Longrightarrow> length (bin (nat x)) \<le> 15"
proof -
  assume a: "0 \<le> x" "x < 2 ^ 15"
  have "int (nat x) < int (2 ^ 15)" using a by simp
  then have "nat x < 2 ^ 15" by (simp only: of_nat_less_iff)
  then show ?thesis by (rule bin_length) simp
qed

lemma format_length:
  assumes "0 \<le> x" "x < 2 ^ 15"
  shows "length (format_015b x) = 15"
proof -
  have nx: "\<not> x < 0" using assms(1) by simp
  show ?thesis unfolding format_015b_def using nx format_nat_bound[OF assms] by simp
qed

lemma format_bits:
  assumes "0 \<le> x"
  shows "\<forall>c \<in> set (format_015b x). is_bit c"
proof -
  have nx: "\<not> x < 0" using assms(1) by simp
  have "is_bit (CHR ''0'')" by (simp add: is_bit_def)
  then show ?thesis unfolding format_015b_def using nx bin_bits[of "nat x"] by auto
qed

lemma format_value:
  assumes "0 \<le> x"
  shows "foldl (\<lambda>acc c. 2 * acc + (if c = CHR ''1'' then 1 else 0)) 0 (format_015b x) = x"
proof -
  have nx: "\<not> x < 0" using assms(1) by simp
  show ?thesis unfolding format_015b_def using nx assms
    by (simp add: foldl_replicate_zeros foldl_bin)
qed

lemma from_key_bit:
  "is_bit c \<Longrightarrow> int pos \<le> 14 \<Longrightarrow>
   from_key ((pos, c) # rest) board =
     from_key rest
       (Board (AList.update (int pos) (c = CHR ''1'') (pins board))
          (previous_board board) (empty_position board))"
  by (auto simp: is_bit_def set_pin_status_in_range)

lemma bit_char_if: "is_bit c \<Longrightarrow> (if c = CHR ''1'' then CHR ''1'' else CHR ''0'') = c"
  by (auto simp: is_bit_def)

lemma from_key_15:
  assumes "is_bit c0" "is_bit c1" "is_bit c2" "is_bit c3" "is_bit c4" "is_bit c5" "is_bit c6"
    "is_bit c7" "is_bit c8" "is_bit c9" "is_bit c10" "is_bit c11" "is_bit c12" "is_bit c13"
    "is_bit c14"
  shows "from_key (enumerate 0 [c0,c1,c2,c3,c4,c5,c6,c7,c8,c9,c10,c11,c12,c13,c14]) root14 =
    Inr (Board [(0, c0 = CHR ''1''), (1, c1 = CHR ''1''), (2, c2 = CHR ''1''), (3, c3 = CHR ''1''),
      (4, c4 = CHR ''1''), (5, c5 = CHR ''1''), (6, c6 = CHR ''1''), (7, c7 = CHR ''1''),
      (8, c8 = CHR ''1''), (9, c9 = CHR ''1''), (10, c10 = CHR ''1''), (11, c11 = CHR ''1''),
      (12, c12 = CHR ''1''), (13, c13 = CHR ''1''), (14, c14 = CHR ''1'')] None 14)"
  using assms
  by (simp add: from_key_bit root14_def init_pins_14 del: from_key.simps(2))

lemma foldl_acc:
  "foldl (\<lambda>acc c. 2 * acc + (if c = CHR ''1'' then 1 else 0)) (a::int) cs =
   a * 2 ^ length cs + foldl (\<lambda>acc c. 2 * acc + (if c = CHR ''1'' then 1 else 0)) 0 cs"
proof (induction cs arbitrary: a)
  case Nil
  then show ?case by simp
next
  case (Cons c cs)
  show ?case
    using Cons.IH[of "2 * a + (if c = CHR ''1'' then 1 else 0)"]
      Cons.IH[of "if c = CHR ''1'' then 1 else 0"]
    by (simp add: algebra_simps)
qed

lemma foldl_bound:
  "0 \<le> foldl (\<lambda>acc c. 2 * acc + (if c = CHR ''1'' then 1 else 0)) (0::int) cs \<and>
   foldl (\<lambda>acc c. 2 * acc + (if c = CHR ''1'' then 1 else 0)) (0::int) cs < 2 ^ length cs"
proof (induction cs)
  case Nil
  then show ?case by simp
next
  case (Cons c cs)
  show ?case
    using Cons.IH foldl_acc[of "if c = CHR ''1'' then 1 else 0" cs]
    by (auto split: if_splits)
qed

lemma bit_at:
  "odd (foldl (\<lambda>acc c. 2 * acc + (if c = CHR ''1'' then 1 else 0)) (0::int) (xs @ c # ys)
          div 2 ^ length ys) = (c = CHR ''1'')"
proof -
  let ?f = "\<lambda>acc c. 2 * acc + (if c = CHR ''1'' then 1 else (0::int))"
  let ?h = "foldl ?f 0 (xs @ [c])"
  let ?t = "foldl ?f 0 ys"
  have "foldl ?f 0 (xs @ c # ys) = foldl ?f ?h ys" by simp
  also have "\<dots> = ?h * 2 ^ length ys + ?t" by (rule foldl_acc)
  finally have e: "foldl ?f 0 (xs @ c # ys) = ?h * 2 ^ length ys + ?t" .
  have b: "0 \<le> ?t" "?t < 2 ^ length ys" using foldl_bound[of ys] by simp_all
  have "(?h * 2 ^ length ys + ?t) div 2 ^ length ys = ?h"
    using b by (simp add: div_pos_pos_trivial)
  then have "foldl ?f 0 (xs @ c # ys) div 2 ^ length ys = ?h" using e by simp
  moreover have "odd ?h = (c = CHR ''1'')" by simp
  ultimately show ?thesis by simp
qed

lemma bit_at_nth:
  assumes "n < length key"
  shows "odd (foldl (\<lambda>acc c. 2 * acc + (if c = CHR ''1'' then 1 else 0)) (0::int) key
          div 2 ^ (length key - Suc n)) = (key ! n = CHR ''1'')"
proof -
  have k: "key = take n key @ key ! n # drop (Suc n) key"
    using assms by (rule id_take_nth_drop)
  have l: "length (drop (Suc n) key) = length key - Suc n" by simp
  show ?thesis using bit_at[of "take n key" "key ! n" "drop (Suc n) key"]
    unfolding l k[symmetric] .
qed

text \<open>C6: for every integer from 0 below \<open>2 ^ 15\<close>, \<open>from_configuration_id\<close> returns a
  board whose string is the fifteen-character binary string of the integer and whose
  \<open>int(str(board), 2)\<close> is the integer again; position \<open>p\<close> holds bit \<open>14 - p\<close>, so
  position 0 is the most significant bit.\<close>

theorem configuration_id_roundtrip:
  assumes "0 \<le> x" "x < 2 ^ 15"
  shows "\<exists>b. from_configuration_id x = Inr b \<and> str b = format_015b x \<and> length (str b) = 15
           \<and> int_str_board b = Inr x
           \<and> (\<forall>p. 0 \<le> p \<and> p \<le> 14 \<longrightarrow> pin_status b p = Inr (odd (x div 2 ^ (14 - nat p))))"
proof -
  let ?f = "\<lambda>acc c. 2 * acc + (if c = CHR ''1'' then 1 else (0::int))"
  let ?key = "format_015b x"
  have len: "length ?key = 15" using assms by (rule format_length)
  have bits: "\<forall>c \<in> set ?key. is_bit c" using assms(1) by (rule format_bits)
  have val: "foldl ?f 0 ?key = x" using assms(1) by (rule format_value)
  obtain c0 c1 c2 c3 c4 c5 c6 c7 c8 c9 c10 c11 c12 c13 c14 where
    key: "?key = [c0,c1,c2,c3,c4,c5,c6,c7,c8,c9,c10,c11,c12,c13,c14]"
    using length15[OF len] by blast
  have b: "is_bit c0" "is_bit c1" "is_bit c2" "is_bit c3" "is_bit c4" "is_bit c5" "is_bit c6"
    "is_bit c7" "is_bit c8" "is_bit c9" "is_bit c10" "is_bit c11" "is_bit c12" "is_bit c13"
    "is_bit c14"
    using bits unfolding key by simp_all
  let ?b = "Board [(0, c0 = CHR ''1''), (1, c1 = CHR ''1''), (2, c2 = CHR ''1''),
      (3, c3 = CHR ''1''), (4, c4 = CHR ''1''), (5, c5 = CHR ''1''), (6, c6 = CHR ''1''),
      (7, c7 = CHR ''1''), (8, c8 = CHR ''1''), (9, c9 = CHR ''1''), (10, c10 = CHR ''1''),
      (11, c11 = CHR ''1''), (12, c12 = CHR ''1''), (13, c13 = CHR ''1''),
      (14, c14 = CHR ''1'')] None 14"
  have "from_key (enumerate 0 ?key) root14 = Inr ?b"
    unfolding key by (rule from_key_15[OF b])
  then have 1: "from_configuration_id x = Inr ?b"
    by (simp add: from_configuration_id_def init_14 del: from_key.simps)
  have 2: "str ?b = ?key"
    unfolding key by (simp add: str_def bit_char_if b)
  have ne: "\<not> (\<exists>c \<in> set ?key. c \<noteq> CHR ''0'' \<and> c \<noteq> CHR ''1'')"
    using bits by (auto simp: is_bit_def)
  have nonempty: "?key \<noteq> []" using len by auto
  have 3: "int_str_board ?b = Inr x"
    unfolding int_str_board_def 2 int_base2_def using ne val nonempty by simp
  have 4: "pin_status ?b p = Inr (odd (x div 2 ^ (14 - nat p)))" if r: "0 \<le> p" "p \<le> 14" for p
  proof -
    have n: "nat p < length ?key" using r len by simp
    have "pin_status ?b p = Inr (?key ! nat p = CHR ''1'')"
      using in_range_cases[OF r] unfolding key
      by (elim disjE) (simp_all add: pin_status_def validate_position_def)
    moreover have "14 - nat p = length ?key - Suc (nat p)" using len by simp
    ultimately show ?thesis using bit_at_nth[OF n] val by simp
  qed
  have 5: "length (str ?b) = 15" using 2 len by simp
  show ?thesis using 1 2 3 4 5 by blast
qed

theorem configuration_id_roundtrip_witness:
  "(\<exists>b. from_configuration_id 16385 = Inr b \<and> str b = ''100000000000001''
      \<and> int_str_board b = Inr 16385 \<and> pin_status b 0 = Inr True \<and> pin_status b 1 = Inr False
      \<and> pin_status b 14 = Inr True)"
proof -
  have f: "format_015b 16385 = ''100000000000001''"
    by (simp add: format_015b_def bin.simps bit_char_def)
  show ?thesis using configuration_id_roundtrip[of 16385] unfolding f by fastforce
qed

section \<open>Transformations of a board\<close>





lemma pin_status_map_of:
  "0 \<le> q \<Longrightarrow> q \<le> 14 \<Longrightarrow> wf_board a \<Longrightarrow> pin_status a q = Inr s \<longleftrightarrow> map_of (pins a) q = Some s"
  by (simp add: pin_status_Inr)








lemma board_eq_wf:
  assumes "wf_board a" "wf_board b"
  shows "board_eq a b = Inr (pins a = pins b)"
proof -
  obtain v0 v1 v2 v3 v4 v5 v6 v7 v8 v9 v10 v11 v12 v13 v14 where
    a: "pins a = [(0,v0),(1,v1),(2,v2),(3,v3),(4,v4),(5,v5),(6,v6),(7,v7),(8,v8),(9,v9),
              (10,v10),(11,v11),(12,v12),(13,v13),(14,v14)]"
    using wf_explicit[OF assms(1)] by blast
  obtain w0 w1 w2 w3 w4 w5 w6 w7 w8 w9 w10 w11 w12 w13 w14 where
    b: "pins b = [(0,w0),(1,w1),(2,w2),(3,w3),(4,w4),(5,w5),(6,w6),(7,w7),(8,w8),(9,w9),
              (10,w10),(11,w11),(12,w12),(13,w13),(14,w14)]"
    using wf_explicit[OF assms(2)] by blast
  show ?thesis
    by (simp add: board_eq_def a b pin_status_def validate_position_def)
qed

lemma transform_there_and_back:
  assumes "wf_board b"
    and "tx \<in> {reflection, clockwise_rotation, counter_clockwise_rotation,
      clockwise_rotation_and_reflection, counter_clockwise_rotation_and_reflection}"
  shows "\<exists>b1 b2. transform tx b = (Inr (), b1) \<and> transform (map prod.swap tx) b1 = (Inr (), b2)
           \<and> b2 = b"
proof -
  obtain v0 v1 v2 v3 v4 v5 v6 v7 v8 v9 v10 v11 v12 v13 v14 where
    p: "pins b = [(0,v0),(1,v1),(2,v2),(3,v3),(4,v4),(5,v5),(6,v6),(7,v7),(8,v8),(9,v9),
              (10,v10),(11,v11),(12,v12),(13,v13),(14,v14)]"
    using wf_explicit[OF assms(1)] by blast
  obtain ps pr ep where b: "b = Board ps pr ep" by (cases b) auto
  show ?thesis using assms(2) p unfolding b
    by (elim insertE emptyE)
       (simp_all add: transform_def validate_position_def set_pin_status_def
          reflection_def clockwise_rotation_def counter_clockwise_rotation_def
          clockwise_rotation_and_reflection_def counter_clockwise_rotation_and_reflection_def)
qed

text \<open>C7: on every board, each of the five valid transformations followed by the
  transformation with its pairs swapped gives a board equal to the first one; the
  tables of the reflection and of the two rotations with reflection are their own
  inverses, and the tables of the two rotations are inverses of each other.\<close>

theorem transform_inverse:
  assumes "wf_board b"
  shows "(\<forall>(name, tx) \<in> set valid_transformations.
            \<exists>b1 b2. transform tx b = (Inr (), b1) \<and>
              transform (map prod.swap tx) b1 = (Inr (), b2) \<and>
              board_eq b2 b = Inr True \<and> pins b2 = pins b) \<and>
         set (map prod.swap reflection) = set reflection \<and>
         set (map prod.swap clockwise_rotation_and_reflection) =
           set clockwise_rotation_and_reflection \<and>
         set (map prod.swap counter_clockwise_rotation_and_reflection) =
           set counter_clockwise_rotation_and_reflection \<and>
         set (map prod.swap clockwise_rotation) = set counter_clockwise_rotation \<and>
         set (map prod.swap counter_clockwise_rotation) = set clockwise_rotation"
proof -
  have 1: "\<exists>b1 b2. transform tx b = (Inr (), b1) \<and>
              transform (map prod.swap tx) b1 = (Inr (), b2) \<and>
              board_eq b2 b = Inr True \<and> pins b2 = pins b"
    if "(name, tx) \<in> set valid_transformations" for name tx
  proof -
    have "tx \<in> {reflection, clockwise_rotation, counter_clockwise_rotation,
      clockwise_rotation_and_reflection, counter_clockwise_rotation_and_reflection}"
      using that by (auto simp: valid_transformations_def)
    from transform_there_and_back[OF assms this] show ?thesis
      using board_eq_wf[OF assms assms] by auto
  qed
  have 2: "set (map prod.swap reflection) = set reflection"
    by (simp add: reflection_def set_eq_subset)
  have 3: "set (map prod.swap clockwise_rotation_and_reflection) =
           set clockwise_rotation_and_reflection"
    by (simp add: clockwise_rotation_and_reflection_def set_eq_subset)
  have 4: "set (map prod.swap counter_clockwise_rotation_and_reflection) =
           set counter_clockwise_rotation_and_reflection"
    by (simp add: counter_clockwise_rotation_and_reflection_def set_eq_subset)
  have 5: "set (map prod.swap clockwise_rotation) = set counter_clockwise_rotation"
    by (simp add: clockwise_rotation_def counter_clockwise_rotation_def set_eq_subset)
  have 6: "set (map prod.swap counter_clockwise_rotation) = set clockwise_rotation"
    by (simp add: clockwise_rotation_def counter_clockwise_rotation_def set_eq_subset)
  have "\<forall>(name, tx) \<in> set valid_transformations.
            \<exists>b1 b2. transform tx b = (Inr (), b1) \<and>
              transform (map prod.swap tx) b1 = (Inr (), b2) \<and>
              board_eq b2 b = Inr True \<and> pins b2 = pins b"
    using 1 by blast
  then show ?thesis using 2 3 4 5 6 by (intro conjI)
qed

theorem transform_inverse_witness:
  "wf_board root14 \<and>
   (\<exists>b1 b2. transform clockwise_rotation root14 = (Inr (), b1) \<and> pin_status b1 4 = Inr False
      \<and> pin_status b1 14 = Inr True
      \<and> transform (map prod.swap clockwise_rotation) b1 = (Inr (), b2)
      \<and> board_eq b2 root14 = Inr True)"
proof -
  have m: "(''Clockwise rotation'', clockwise_rotation) \<in> set valid_transformations"
    by (simp add: valid_transformations_def)
  from transform_inverse[OF wf_root14] m obtain b1 b2 where
    t: "transform clockwise_rotation root14 = (Inr (), b1)"
    "transform (map prod.swap clockwise_rotation) b1 = (Inr (), b2)"
    "board_eq b2 root14 = Inr True" by blast
  have "pin_status (snd (transform clockwise_rotation root14)) 4 = Inr False \<and>
        pin_status (snd (transform clockwise_rotation root14)) 14 = Inr True"
    by (simp add: transform_def clockwise_rotation_def root14_def init_pins_14
        validate_position_def set_pin_status_def pin_status_def)
  then show ?thesis using t wf_root14 by auto
qed

section \<open>Solution sets and stored transformations\<close>

lemma first_not_won_Some:
  "\<exists>b \<in> set boards. \<not> is_won b \<Longrightarrow>
   \<exists>board. first_not_won boards = Some board \<and> \<not> is_won board \<and> board \<in> set boards"
  by (induction boards) auto

lemma first_not_won_None: "\<forall>b \<in> set boards. is_won b \<Longrightarrow> first_not_won boards = None"
  by (induction boards) auto

text \<open>C9: when some board of the list is not won, \<open>consolidate_solutions\<close> raises nothing:
  its result is the ValueError object made for the first board that is not won, in place
  of the list of solution sets.\<close>

theorem consolidate_returns_error_object:
  assumes "\<exists>b \<in> set boards. \<not> is_won b"
  shows "\<exists>board. first_not_won boards = Some board \<and> board \<in> set boards \<and> \<not> is_won board \<and>
           consolidate_solutions ident boards =
             Inr (Error_object
                   (ValueError (''Board '' @ repr ident board @ '' has not been won'')))"
proof -
  obtain board where "first_not_won boards = Some board" "\<not> is_won board" "board \<in> set boards"
    using first_not_won_Some[OF assms] by blast
  then show ?thesis by (simp add: consolidate_solutions_def)
qed

theorem consolidate_returns_error_object_witness:
  "\<not> is_won root14 \<and>
   consolidate_solutions (\<lambda>b. ''1'') [root14] =
     Inr (Error_object (ValueError ''Board <Board at 1, won=False> has not been won''))"
proof -
  have n: "\<not> is_won root14" by (simp add: is_won_def root14_def init_pins_14)
  then have "\<exists>b \<in> set [root14]. \<not> is_won b" by simp
  from consolidate_returns_error_object[OF this, of "\<lambda>b. ''1''"] n
  show ?thesis by (simp add: repr_def)
qed

lemma replicate_4: "replicate 4 x = [x, x, x, x]"
  by (simp add: numeral_eq_Suc)

lemma format_1024: "format_015b 1024 = ''000010000000000''"
  by (simp add: format_015b_def bin.simps bit_char_def replicate_4)

lemma format_16384: "format_015b 16384 = ''100000000000000''"
  by (simp add: format_015b_def bin.simps bit_char_def)

lemma from_1024: "from_configuration_id 1024 = Inr board_1024"
  by (simp add: from_configuration_id_def format_1024 init_14 root14_def init_pins_14
      set_pin_status_def validate_position_def board_1024_def)

lemma from_16384: "from_configuration_id 16384 = Inr board_16384"
  by (simp add: from_configuration_id_def format_16384 init_14 root14_def init_pins_14
      set_pin_status_def validate_position_def board_16384_def)

lemma copy_16384: "copy board_16384 = Inr (Board (pins board_16384) (Some board_16384) 14)"
  using copy_of_wf[of board_16384] by (simp add: wf_board_def board_16384_def range15)

lemma check_reflection:
  "check_transformation board_16384 reflection [(conf_1024, board_1024)] = Inr (Some conf_1024)"
  unfolding check_transformation_def copy_16384
  by (simp add: transform_def reflection_def
      board_16384_def board_1024_def validate_position_def set_pin_status_def
      board_eq_def pin_status_def)

lemma check_clockwise:
  "check_transformation board_16384 clockwise_rotation [(conf_1024, board_1024)] = Inr None"
  unfolding check_transformation_def copy_16384
  by (simp add: transform_def clockwise_rotation_def
      board_16384_def board_1024_def validate_position_def set_pin_status_def
      board_eq_def pin_status_def)

lemma check_counter_clockwise:
  "check_transformation board_16384 counter_clockwise_rotation [(conf_1024, board_1024)] =
     Inr (Some conf_1024)"
  unfolding check_transformation_def copy_16384
  by (simp add: transform_def counter_clockwise_rotation_def
      board_16384_def board_1024_def validate_position_def set_pin_status_def
      board_eq_def pin_status_def)

lemma check_clockwise_reflection:
  "check_transformation board_16384 clockwise_rotation_and_reflection
     [(conf_1024, board_1024)] = Inr None"
  unfolding check_transformation_def copy_16384
  by (simp add: transform_def
      clockwise_rotation_and_reflection_def
      board_16384_def board_1024_def validate_position_def set_pin_status_def
      board_eq_def pin_status_def)

lemma check_counter_clockwise_reflection:
  "check_transformation board_16384 counter_clockwise_rotation_and_reflection
     [(conf_1024, board_1024)] = Inr None"
  unfolding check_transformation_def copy_16384
  by (simp add: transform_def
      counter_clockwise_rotation_and_reflection_def
      board_16384_def board_1024_def validate_position_def set_pin_status_def
      board_eq_def pin_status_def)

lemma scan_unique_first_match:
  "\<forall>(c, b) \<in> set pre. board_eq t b = Inr False \<Longrightarrow> board_eq t ub = Inr True \<Longrightarrow>
   scan_unique t (pre @ (uc, ub) # post) = Inr (Some uc)"
  by (induction pre) auto

lemma transformations_loop_edges:
  "\<forall>(d, tx) \<in> set txs. \<exists>r. check_transformation board tx uniq = Inr r \<Longrightarrow>
   transformations_loop working_conf board uniq txs unique session =
     Inr (unique \<and> edges_for working_conf board uniq txs = [],
          session @ edges_for working_conf board uniq txs)"
proof (induction txs arbitrary: unique session)
  case Nil
  then show ?case by (simp add: edges_for_def)
next
  case (Cons p txs)
  obtain d tx where p: "p = (d, tx)" by (cases p) auto
  obtain r where r: "check_transformation board tx uniq = Inr r" using Cons.prems p by auto
  have rest: "\<forall>(d, tx) \<in> set txs. \<exists>r. check_transformation board tx uniq = Inr r"
    using Cons.prems by simp
  show ?case
  proof (cases r)
    case None
    then show ?thesis using Cons.IH[OF rest] r unfolding p by (simp add: edges_for_def)
  next
    case (Some m)
    then show ?thesis using Cons.IH[OF rest] r unfolding p by (simp add: edges_for_def)
  qed
qed

text \<open>C2: the loop over the valid transformations has no exit after a match.  For the
  stored configurations 1024 (only position 4 occupied) and 16384 (only position 0
  occupied), in this order, the second is no unique configuration and two
  transformations to the first are added to the session: the reflection and the
  counter-clockwise rotation both take it to the first.\<close>

theorem findtransformations_two_edges:
  "findtransformations [conf_1024, conf_16384] =
     Inr ([(conf_1024, board_1024)],
          [\<lparr>to_configuration = conf_1024, from_configuration = conf_16384,
              desc = ''Reflection''\<rparr>,
           \<lparr>to_configuration = conf_1024, from_configuration = conf_16384,
              desc = ''Counter-clockwise rotation''\<rparr>])"
proof -
  have i: "conf_id conf_1024 = 1024" "conf_id conf_16384 = 16384"
    by (simp_all add: conf_1024_def conf_16384_def)
  show ?thesis
    by (simp add: findtransformations_def i from_1024 from_16384 valid_transformations_def
        check_reflection check_clockwise check_counter_clockwise check_clockwise_reflection
        check_counter_clockwise_reflection)
qed

section \<open>The generations of the search\<close>




lemma children_Nil: "moves b = Inr [] \<Longrightarrow> children b = []"
  by (simp add: children_def)














lemma generations_unique: "generations n boards \<Longrightarrow> generations m boards \<Longrightarrow> n = m"
proof (rule ccontr)
  assume g: "generations n boards" "generations m boards" and "n \<noteq> m"
  then consider "n < m" | "m < n" by linarith
  then show False
  proof cases
    case 1
    then have "\<exists>f. frontier n boards = Inr f \<and> f \<noteq> []" using g(2) unfolding generations_def by blast
    then show False using g(1) by (simp add: generations_def)
  next
    case 2
    then have "\<exists>f. frontier m boards = Inr f \<and> f \<noteq> []" using g(1) unfolding generations_def by blast
    then show False using g(2) by (simp add: generations_def)
  qed
qed







lemma child_pins:
  "pins (child b (s, e, j)) =
     AList.update e True (AList.update j False (AList.update s False (pins b)))"
  by (simp add: child_def jumped_def)

lemma child_empty: "empty_position (child b m) = empty_position b"
  by (simp add: child_def jumped_def split: prod.splits)

lemma pins_line_1:
  "pins line_1 =
     [(0,True),(1,True),(2,True),(3,True),(4,True),(5,True),(6,True),(7,True),(8,True),(9,False),(10,True),(11,True),(12,False),(13,True),(14,True)]"
  unfolding line_1_def child_pins by (simp add: root14_def init_pins_14)

lemma empty_line_1: "empty_position line_1 = 14"
  unfolding line_1_def child_empty by (simp add: root14_def)

lemma wf_line_1: "wf_board line_1"
  by (simp add: wf_board_def pins_line_1 empty_line_1 range15)


lemma pins_line_2:
  "pins line_2 =
     [(0,True),(1,True),(2,False),(3,True),(4,True),(5,True),(6,False),(7,True),(8,True),(9,True),(10,True),(11,True),(12,False),(13,True),(14,True)]"
  unfolding line_2_def child_pins by (simp add: pins_line_1)

lemma empty_line_2: "empty_position line_2 = 14"
  unfolding line_2_def child_empty by (simp add: empty_line_1)

lemma wf_line_2: "wf_board line_2"
  by (simp add: wf_board_def pins_line_2 empty_line_2 range15)


lemma pins_line_3:
  "pins line_3 =
     [(0,True),(1,True),(2,False),(3,True),(4,True),(5,True),(6,True),(7,False),(8,False),(9,True),(10,True),(11,True),(12,False),(13,True),(14,True)]"
  unfolding line_3_def child_pins by (simp add: pins_line_2)

lemma empty_line_3: "empty_position line_3 = 14"
  unfolding line_3_def child_empty by (simp add: empty_line_2)

lemma wf_line_3: "wf_board line_3"
  by (simp add: wf_board_def pins_line_3 empty_line_3 range15)


lemma pins_line_4:
  "pins line_4 =
     [(0,True),(1,True),(2,False),(3,True),(4,True),(5,False),(6,False),(7,True),(8,False),(9,True),(10,True),(11,True),(12,False),(13,True),(14,True)]"
  unfolding line_4_def child_pins by (simp add: pins_line_3)

lemma empty_line_4: "empty_position line_4 = 14"
  unfolding line_4_def child_empty by (simp add: empty_line_3)

lemma wf_line_4: "wf_board line_4"
  by (simp add: wf_board_def pins_line_4 empty_line_4 range15)


lemma pins_line_5:
  "pins line_5 =
     [(0,True),(1,True),(2,True),(3,True),(4,True),(5,False),(6,False),(7,False),(8,False),(9,True),(10,True),(11,False),(12,False),(13,True),(14,True)]"
  unfolding line_5_def child_pins by (simp add: pins_line_4)

lemma empty_line_5: "empty_position line_5 = 14"
  unfolding line_5_def child_empty by (simp add: empty_line_4)

lemma wf_line_5: "wf_board line_5"
  by (simp add: wf_board_def pins_line_5 empty_line_5 range15)


lemma pins_dead_end:
  "pins dead_end =
     [(0,True),(1,True),(2,True),(3,True),(4,True),(5,False),(6,False),(7,False),(8,False),(9,True),(10,True),(11,True),(12,False),(13,False),(14,False)]"
  unfolding dead_end_def child_pins by (simp add: pins_line_5)

lemma empty_dead_end: "empty_position dead_end = 14"
  unfolding dead_end_def child_empty by (simp add: empty_line_5)

lemma wf_dead_end: "wf_board dead_end"
  by (simp add: wf_board_def pins_dead_end empty_dead_end range15)























end
